theory Spec2Isabelle
  imports Main
begin

section \<open>The EzLinks replacer of mkdocs-ezlinks-plugin\<close>

text \<open>
  A shallow embedding of \<^verbatim>\<open>mkdocs_ezlinks_plugin/types.py\<close> and
  \<^verbatim>\<open>mkdocs_ezlinks_plugin/replacer.py\<close>. Strings are byte strings (UTF-8), so a
  \<^typ>\<open>char\<close> is one byte. The exceptions the code can raise are values of
  \<open>error\<close>; a function that may raise returns \<open>error + 'a\<close>. The debug messages
  handed to the logger are returned as a list, in the order they are logged.
\<close>

subsection \<open>Python library functions the replacer calls\<close>

text \<open>
  \<^verbatim>\<open>os.path\<close> is \<^verbatim>\<open>posixpath\<close>; the definitions follow CPython's
  \<^verbatim>\<open>posixpath.py\<close>, \<^verbatim>\<open>genericpath.py\<close> and \<^verbatim>\<open>urllib/parse.py\<close> line by
  line. The working directory that \<^verbatim>\<open>os.getcwd()\<close> returns is a parameter.
\<close>

datatype error = BrokenLink string | TypeError | ValueError

abbreviation sep :: char where
  "sep \<equiv> CHR ''/''"

abbreviation apostrophe :: char where
  "apostrophe \<equiv> CHR 0x27"

text \<open>\<^verbatim>\<open>s.split('/')\<close>: one more part than there are separators.\<close>

fun split_sep :: "string \<Rightarrow> string list" where
  "split_sep [] = [[]]"
| "split_sep (c # cs) =
     (if c = sep then [] # split_sep cs
      else (case split_sep cs of [] \<Rightarrow> [[c]] | w # ws \<Rightarrow> (c # w) # ws))"

text \<open>\<^verbatim>\<open>'/'.join(comps)\<close>.\<close>

fun sep_join :: "string list \<Rightarrow> string" where
  "sep_join [] = []"
| "sep_join [x] = x"
| "sep_join (x # y # ys) = x @ sep # sep_join (y # ys)"

definition startswith_sep :: "string \<Rightarrow> bool" where
  "startswith_sep p = (case p of [] \<Rightarrow> False | c # _ \<Rightarrow> c = sep)"

definition endswith_sep :: "string \<Rightarrow> bool" where
  "endswith_sep p = (p \<noteq> [] \<and> last p = sep)"

text \<open>\<^verbatim>\<open>posixpath.join(a, b)\<close>, one step of its loop over the later arguments.\<close>

definition join :: "string \<Rightarrow> string \<Rightarrow> string" where
  "join path b =
     (if startswith_sep b then b
      else if path = [] \<or> endswith_sep path then path @ b
      else path @ sep # b)"

text \<open>\<^verbatim>\<open>posixpath.join(*parts)\<close> for a non-empty list of parts.\<close>

definition join_all :: "string list \<Rightarrow> string" where
  "join_all parts = (case parts of [] \<Rightarrow> [] | a # p \<Rightarrow> foldl join a p)"

definition rstrip_sep :: "string \<Rightarrow> string" where
  "rstrip_sep p = rev (dropWhile (\<lambda>c. c = sep) (rev p))"

text \<open>
  \<^verbatim>\<open>posixpath.dirname(p)\<close>: \<^verbatim>\<open>head = p[:p.rfind('/') + 1]\<close>, stripped of its
  trailing separators unless it consists of separators only.
\<close>

definition dirname :: "string \<Rightarrow> string" where
  "dirname p =
     (let head = rev (dropWhile (\<lambda>c. c \<noteq> sep) (rev p))
      in if head \<noteq> [] \<and> head \<noteq> replicate (length head) sep then rstrip_sep head else head)"

definition isabs :: "string \<Rightarrow> bool" where
  "isabs p = startswith_sep p"

text \<open>The body of the loop of \<^verbatim>\<open>posixpath.normpath\<close> over the components.\<close>

definition norm_step :: "nat \<Rightarrow> string list \<Rightarrow> string \<Rightarrow> string list" where
  "norm_step initial_slashes new_comps part =
     (if part = [] \<or> part = ''.'' then new_comps
      else if part \<noteq> ''..'' \<or> (initial_slashes = 0 \<and> new_comps = [])
              \<or> (new_comps \<noteq> [] \<and> last new_comps = ''..'')
        then new_comps @ [part]
      else if new_comps \<noteq> [] then butlast new_comps
      else new_comps)"

definition normpath :: "string \<Rightarrow> string" where
  "normpath path =
     (if path = [] then ''.''
      else
        let initial_slashes =
              (if startswith_sep path
               then (if take 2 path = ''//'' \<and> take 3 path \<noteq> ''///'' then 2 else 1)
               else (0::nat));
            comps = foldl (norm_step initial_slashes) [] (split_sep path);
            res = replicate initial_slashes sep @ sep_join comps
        in if res = [] then ''.'' else res)"

definition abspath :: "string \<Rightarrow> string \<Rightarrow> string" where
  "abspath cwd path = normpath (if isabs path then path else join cwd path)"

text \<open>The length of \<^verbatim>\<open>os.path.commonprefix\<close> of two lists of components.\<close>

fun commonprefix_len :: "string list \<Rightarrow> string list \<Rightarrow> nat" where
  "commonprefix_len (x # xs) (y # ys) = (if x = y then Suc (commonprefix_len xs ys) else 0)"
| "commonprefix_len _ _ = 0"

text \<open>\<^verbatim>\<open>posixpath.relpath(path, start)\<close>; an empty \<^verbatim>\<open>path\<close> raises ValueError.\<close>

definition relpath :: "string \<Rightarrow> string \<Rightarrow> string \<Rightarrow> error + string" where
  "relpath cwd path start =
     (if path = [] then Inl ValueError
      else
        let start_list = filter (\<lambda>x. x \<noteq> []) (split_sep (abspath cwd start));
            path_list = filter (\<lambda>x. x \<noteq> []) (split_sep (abspath cwd path));
            i = commonprefix_len start_list path_list;
            rel_list = replicate (length start_list - i) ''..'' @ drop i path_list
        in if rel_list = [] then Inr ''.'' else Inr (join_all rel_list))"

text \<open>
  \<^verbatim>\<open>urllib.parse.quote(s)\<close> with its default \<^verbatim>\<open>safe='/'\<close>: letters, digits and
  \<^verbatim>\<open>_.-~/\<close> are kept, every other byte becomes \<^verbatim>\<open>%XX\<close> in upper-case hexadecimal.
\<close>

definition always_safe :: "char \<Rightarrow> bool" where
  "always_safe c =
     (c \<in> set ''ABCDEFGHIJKLMNOPQRSTUVWXYZabcdefghijklmnopqrstuvwxyz0123456789_.-~'')"

definition hexdigit :: "nat \<Rightarrow> char" where
  "hexdigit n = ''0123456789ABCDEF'' ! (n mod 16)"

definition quote_byte :: "char \<Rightarrow> string" where
  "quote_byte c =
     (if always_safe c \<or> c = sep then [c]
      else [CHR ''%'', hexdigit (of_char c div 16), hexdigit (of_char c mod 16)])"

definition quote :: "string \<Rightarrow> string" where
  "quote s = concat (map quote_byte s)"

text \<open>
  The extension that \<^verbatim>\<open>os.path.splitext(p)\<close> splits off: from the last dot of the
  last component on, unless only dots stand before it there.
\<close>

definition splitext_ext :: "string \<Rightarrow> string" where
  "splitext_ext p =
     (let name = rev (takeWhile (\<lambda>c. c \<noteq> sep) (rev p));
          ext = rev (takeWhile (\<lambda>c. c \<noteq> CHR ''.'') (rev name));
          stem = take (length name - length ext - 1) name
      in if CHR ''.'' \<in> set name \<and> filter (\<lambda>c. c \<noteq> CHR ''.'') stem \<noteq> []
         then CHR ''.'' # ext else [])"

subsection \<open>types.py\<close>

record Link =
  link_image :: bool
  link_text :: string
  link_target :: string
  link_anchor :: string
  link_title :: string

text \<open>\<^verbatim>\<open>Link.render(self, title_as_text=False)\<close>.\<close>

definition render :: "Link \<Rightarrow> bool \<Rightarrow> string" where
  "render self title_as_text =
     (let img = (if link_image self then ''!'' else '''');
          anchor = (if link_anchor self \<noteq> [] then CHR ''#'' # link_anchor self else '''');
          title = (if link_title self \<noteq> []
                   then CHR '' '' # CHR 0x22 # link_title self @ [CHR 0x22] else '''')
      in if title_as_text \<and> link_title self \<noteq> []
         then img @ ''['' @ link_title self @ '']('' @ link_target self @ anchor @ '')''
         else img @ ''['' @ link_text self @ '']('' @ link_target self @ anchor @ title @ '')'')"

subsection \<open>The collaborators of the replacer\<close>

text \<open>
  A regular-expression match object, as far as the replacer and the scanners read it:
  \<^verbatim>\<open>match.group(0)\<close> and \<^verbatim>\<open>match.groupdict()\<close>, the named groups that took
  part in the match with their texts.
\<close>

record re_match =
  group0 :: string
  groupdict :: "string \<rightharpoonup> string"

text \<open>
  A compiled pattern, as a function: given the text before a position and the text from
  it, the length of the match that starts there and its named groups, or \<open>None\<close>.
\<close>

type_synonym matcher = "string \<Rightarrow> string \<Rightarrow> (nat \<times> (string \<rightharpoonup> string)) option"

text \<open>
  Modelled from the spec: the link scanners (\<^verbatim>\<open>scanners/base_link_scanner.py\<close> and
  its subclasses) are absent. A syntax recognizer exposes \<^verbatim>\<open>pattern()\<close>, a regex
  fragment, here by what it matches; \<^verbatim>\<open>match(occurrence) -> bool\<close>; and
  \<^verbatim>\<open>extract(occurrence) -> Link | null\<close>.
\<close>

record scanner =
  sc_pattern :: matcher
  sc_match :: "re_match \<Rightarrow> bool"
  sc_extract :: "re_match \<Rightarrow> Link option"

text \<open>
  The fields \<^verbatim>\<open>EzLinksReplacer.__init__\<close> sets. Modelled from the spec: the location
  index (\<^verbatim>\<open>file_mapper.py\<close>) is absent;
  \<^verbatim>\<open>search(originDocumentPath, logicalTarget) -> resolvedPath | not-found\<close> is the
  field \<open>file_map_search\<close>, where \<open>None\<close> is Python's \<^verbatim>\<open>None\<close> and
  \<open>Some s\<close> a string, possibly empty. \<open>getcwd\<close> is the working directory of the
  process, which \<^verbatim>\<open>os.path.relpath\<close> reads.
\<close>

record EzLinksReplacer =
  root :: string
  file_map_search :: "string \<Rightarrow> string \<Rightarrow> string option"
  use_directory_urls :: bool
  scanners :: "scanner list"
  target_scanners :: "scanner list"
  getcwd :: string

subsection \<open>replacer.py: the compiled patterns\<close>

text \<open>
  The lazy body \<^verbatim>\<open>(?:[\w\W]*?)\<close> followed by \<^verbatim>\<open>[`]{3}$\<close>: the number of
  characters up to and including the first closing fence that stands at the end of a
  line (\<^verbatim>\<open>re.MULTILINE\<close>: at the end of the text or before a newline).
\<close>

fun fence_rest :: "string \<Rightarrow> nat option" where
  "fence_rest [] = None"
| "fence_rest (c # cs) =
     (if take 3 (c # cs) = ''```'' \<and> (drop 3 (c # cs) = [] \<or> hd (drop 3 (c # cs)) = CHR 0x0A)
      then Some 3
      else map_option Suc (fence_rest cs))"

definition code_fence :: "string \<Rightarrow> nat option" where
  "code_fence s =
     (if take 3 s = ''```'' then map_option (\<lambda>n. 3 + n) (fence_rest (drop 3 s)) else None)"

text \<open>The lazy body of \<^verbatim>\<open>`[\w\W]*?`\<close>: up to and including the next backtick.\<close>

fun tick_rest :: "string \<Rightarrow> nat option" where
  "tick_rest [] = None"
| "tick_rest (c # cs) = (if c = CHR ''`'' then Some 1 else map_option Suc (tick_rest cs))"

definition inline_code :: "string \<Rightarrow> nat option" where
  "inline_code s =
     (case s of [] \<Rightarrow> None
      | c # cs \<Rightarrow> if c = CHR ''`'' then map_option Suc (tick_rest cs) else None)"

text \<open>The first alternative of \<open>regex\<close>: a fenced block, else an inline code span.\<close>

definition code_span :: "string \<Rightarrow> nat option" where
  "code_span s = (case code_fence s of Some n \<Rightarrow> Some n | None \<Rightarrow> inline_code s)"

text \<open>\<^verbatim>\<open>"|".join([scanner.pattern() for scanner in ...])\<close>: the first that matches.\<close>

fun alternation :: "scanner list \<Rightarrow> matcher" where
  "alternation [] pre s = None"
| "alternation (sc # scs) pre s =
     (case sc_pattern sc pre s of Some r \<Rightarrow> Some r | None \<Rightarrow> alternation scs pre s)"

text \<open>\<^verbatim>\<open>self.regex\<close> and \<^verbatim>\<open>self.target_regex\<close>, as \<^verbatim>\<open>compile\<close> builds them.\<close>

definition regex :: "EzLinksReplacer \<Rightarrow> matcher" where
  "regex self pre s =
     (case code_span s of Some n \<Rightarrow> Some (n, Map.empty)
      | None \<Rightarrow> alternation (scanners self) pre s)"

definition target_regex :: "EzLinksReplacer \<Rightarrow> matcher" where
  "target_regex self pre s = alternation (target_scanners self) pre s"

text \<open>
  The scan that \<^verbatim>\<open>re.finditer\<close> and \<^verbatim>\<open>re.sub\<close> share: from left to right, the
  match at the current position if there is one, then on from its end; otherwise one
  character on. The link patterns start with a literal bracket, so a match is never
  empty: a match of length 0 counts as none.
\<close>

datatype piece = Lit char | Hit re_match

function scan :: "matcher \<Rightarrow> string \<Rightarrow> string \<Rightarrow> piece list" where
  "scan rx pre [] = []"
| "scan rx pre (c # cs) =
     (case rx pre (c # cs) of
        None \<Rightarrow> Lit c # scan rx (pre @ [c]) cs
      | Some (n, g) \<Rightarrow>
          if n = 0 then Lit c # scan rx (pre @ [c]) cs
          else Hit \<lparr>group0 = c # take (n - 1) cs, groupdict = g\<rparr>
                 # scan rx (pre @ c # take (n - 1) cs) (drop (n - 1) cs))"
  by pat_completeness auto
termination
  by (relation "measure (\<lambda>(rx, pre, s). length s)") auto

fun hits :: "piece list \<Rightarrow> re_match list" where
  "hits [] = []"
| "hits (Lit c # ps) = hits ps"
| "hits (Hit m # ps) = m # hits ps"

definition finditer :: "matcher \<Rightarrow> string \<Rightarrow> re_match list" where
  "finditer rx s = hits (scan rx [] s)"

text \<open>
  \<^verbatim>\<open>re.sub(rx, repl, s)\<close>: the text between the matches is copied, every match is
  replaced by what \<open>repl\<close> returns for it; an exception of \<open>repl\<close> ends the call.
\<close>

fun sub_pieces :: "(re_match \<Rightarrow> string list \<times> (error + string)) \<Rightarrow> piece list
    \<Rightarrow> string list \<times> (error + string)" where
  "sub_pieces repl [] = ([], Inr [])"
| "sub_pieces repl (Lit c # ps) =
     (case sub_pieces repl ps of
        (lg, Inl e) \<Rightarrow> (lg, Inl e)
      | (lg, Inr out) \<Rightarrow> (lg, Inr (c # out)))"
| "sub_pieces repl (Hit m # ps) =
     (case repl m of
        (lg, Inl e) \<Rightarrow> (lg, Inl e)
      | (lg, Inr new) \<Rightarrow>
          (case sub_pieces repl ps of
             (lg', Inl e) \<Rightarrow> (lg @ lg', Inl e)
           | (lg', Inr out) \<Rightarrow> (lg @ lg', Inr (new @ out))))"

definition re_sub :: "matcher \<Rightarrow> (re_match \<Rightarrow> string list \<times> (error + string)) \<Rightarrow> string
    \<Rightarrow> string list \<times> (error + string)" where
  "re_sub rx repl s = sub_pieces repl (scan rx [] s)"

subsection \<open>replacer.py: resolving one link\<close>

definition abs_from :: "EzLinksReplacer \<Rightarrow> string \<Rightarrow> string" where
  "abs_from self path = dirname (join (root self) path)"

text \<open>
  Lines 92--98 and 131--137, the same in both passes: the search through the file map,
  the \<^verbatim>\<open>.md\<close> suffix when directory URLs are off, then the test of the result.
  \<^verbatim>\<open>"." not in None\<close> raises TypeError.
\<close>

definition search_target :: "EzLinksReplacer \<Rightarrow> string \<Rightarrow> string \<Rightarrow> error + string" where
  "search_target self path target =
     (case file_map_search self path target of
        None \<Rightarrow>
          if \<not> use_directory_urls self then Inl TypeError
          else Inl (BrokenLink (apostrophe # target @ apostrophe # '' not found.''))
      | Some found \<Rightarrow>
          let search_result =
                (if \<not> use_directory_urls self
                 then (if CHR ''.'' \<notin> set found then found @ ''.md'' else found)
                 else found)
          in if search_result = []
             then Inl (BrokenLink (apostrophe # target @ apostrophe # '' not found.''))
             else Inr search_result)"

definition could_not_extract :: "re_match \<Rightarrow> error" where
  "could_not_extract m =
     BrokenLink (''Could not extract link from '' @ apostrophe # group0 m @ [apostrophe])"

definition no_target :: "re_match \<Rightarrow> error" where
  "no_target m = BrokenLink (''No target for link '' @ apostrophe # group0 m @ [apostrophe])"

subsection \<open>replacer.py: \<^verbatim>\<open>_do_replace\<close>\<close>

text \<open>Lines 139--140: the quoted relative path, then the link rendered.\<close>

definition quote_and_render :: "EzLinksReplacer \<Rightarrow> string \<Rightarrow> Link \<Rightarrow> error + string" where
  "quote_and_render self path link =
     (case relpath (getcwd self) (link_target link) (abs_from self path) of
        Inl e \<Rightarrow> Inl e
      | Inr rel \<Rightarrow> Inr (render (link\<lparr>link_target := quote rel\<rparr>) False))"

text \<open>
  The body of the \<^verbatim>\<open>try\<close>: the loop over the scanners. \<open>Inr None\<close> is the loop
  running to its end, \<open>Inr (Some s)\<close> a \<^verbatim>\<open>return s\<close>, \<open>Inl e\<close> a raise.
\<close>

fun replace_try :: "EzLinksReplacer \<Rightarrow> string \<Rightarrow> (string \<rightharpoonup> Link) \<Rightarrow> re_match
    \<Rightarrow> scanner list \<Rightarrow> error + string option" where
  "replace_try self path target_map m [] = Inr None"
| "replace_try self path target_map m (sc # scs) =
     (if sc_match sc m then
        (case sc_extract sc m of
           None \<Rightarrow> Inl (could_not_extract m)
         | Some link \<Rightarrow>
             if link_target link = [] then
               (if link_anchor link \<noteq> []
                then map_sum id Some
                  (quote_and_render self path (link\<lparr>link_target := join (root self) path\<rparr>))
                else Inl (no_target m))
             else
               (case target_map (link_target link) of
                  Some d \<Rightarrow> Inr (Some (render d True))
                | None \<Rightarrow>
                    (case search_target self path (link_target link) of
                       Inl e \<Rightarrow> Inl e
                     | Inr search_result \<Rightarrow>
                         map_sum id Some
                           (quote_and_render self path
                              (link\<lparr>link_target := search_result\<rparr>)))))
      else replace_try self path target_map m scs)"

text \<open>
  \<^verbatim>\<open>_do_replace\<close>: a BrokenLink is caught and logged, and the match is returned as
  it stands; so it is when no scanner claims it. Other exceptions pass through.
\<close>

definition do_replace :: "EzLinksReplacer \<Rightarrow> string \<Rightarrow> (string \<rightharpoonup> Link) \<Rightarrow> re_match
    \<Rightarrow> string list \<times> (error + string)" where
  "do_replace self path target_map m =
     (case replace_try self path target_map m (scanners self) of
        Inl (BrokenLink msg) \<Rightarrow> ([''[EzLinks] '' @ msg], Inr (group0 m))
      | Inl e \<Rightarrow> ([], Inl e)
      | Inr (Some new) \<Rightarrow> ([], Inr new)
      | Inr None \<Rightarrow> ([], Inr (group0 m)))"

subsection \<open>replacer.py: \<^verbatim>\<open>_build_target_map\<close>\<close>

text \<open>
  The body of the \<^verbatim>\<open>try\<close> for one match: the loop over the target scanners, with
  the map as it stands. The map is returned with the exception that ended the loop, if
  any: what was stored before is kept.
\<close>

fun target_try :: "EzLinksReplacer \<Rightarrow> string \<Rightarrow> re_match \<Rightarrow> scanner list
    \<Rightarrow> (string \<rightharpoonup> Link) \<Rightarrow> (string \<rightharpoonup> Link) \<times> error option" where
  "target_try self path m [] target_map = (target_map, None)"
| "target_try self path m (sc # scs) target_map =
     (if sc_match sc m then
        (case sc_extract sc m of
           None \<Rightarrow> (target_map, Some (could_not_extract m))
         | Some link \<Rightarrow>
             (case (if link_target link = [] then
                      (if link_anchor link \<noteq> [] then Inr (join (root self) path)
                       else Inl (no_target m))
                    else search_target self path (link_target link)) of
                Inl e \<Rightarrow> (target_map, Some e)
              | Inr target \<Rightarrow>
                  (case relpath (getcwd self) target (abs_from self path) of
                     Inl e \<Rightarrow> (target_map, Some e)
                   | Inr rel \<Rightarrow>
                       target_try self path m scs
                         (target_map(link_text link \<mapsto> link\<lparr>link_target := rel\<rparr>)))))
      else target_try self path m scs target_map)"

text \<open>The loop over the matches of \<^verbatim>\<open>self.target_regex\<close>.\<close>

fun target_loop :: "EzLinksReplacer \<Rightarrow> string \<Rightarrow> re_match list \<Rightarrow> (string \<rightharpoonup> Link)
    \<Rightarrow> string list \<times> (error + (string \<rightharpoonup> Link))" where
  "target_loop self path [] target_map = ([], Inr target_map)"
| "target_loop self path (m # ms) target_map =
     (case target_try self path m (target_scanners self) target_map of
        (target_map', None) \<Rightarrow> target_loop self path ms target_map'
      | (target_map', Some (BrokenLink msg)) \<Rightarrow>
          (case target_loop self path ms target_map' of
             (lg, res) \<Rightarrow> ((''[EzLinks] '' @ msg) # lg, res))
      | (target_map', Some e) \<Rightarrow> ([], Inl e))"

definition build_target_map :: "EzLinksReplacer \<Rightarrow> string \<Rightarrow> string
    \<Rightarrow> string list \<times> (error + (string \<rightharpoonup> Link))" where
  "build_target_map self path markdown =
     target_loop self path (finditer (target_regex self) markdown) Map.empty"

subsection \<open>replacer.py: \<^verbatim>\<open>replace\<close>\<close>

definition replace :: "EzLinksReplacer \<Rightarrow> string \<Rightarrow> string \<Rightarrow> string list \<times> (error + string)" where
  "replace self path markdown =
     (case build_target_map self path markdown of
        (lg, Inl e) \<Rightarrow> (lg, Inl e)
      | (lg, Inr target_map) \<Rightarrow>
          (case re_sub (regex self) (do_replace self path target_map) markdown of
             (lg', res) \<Rightarrow> (lg @ lg', res)))"

subsection \<open>Two recognizers and a site, for the examples\<close>

text \<open>
  A wikilink recognizer for \<^verbatim>\<open>[[target#anchor|text]]\<close> with one named group, and a
  recognizer of definitions \<^verbatim>\<open>[name]: target\<close> that run to the end of the line.
\<close>

fun wiki_close :: "string \<Rightarrow> (string \<times> nat) option" where
  "wiki_close [] = None"
| "wiki_close (c # cs) =
     (if c = CHR '']'' \<and> take 1 cs = '']'' then Some ([], 2)
      else map_option (\<lambda>(t, n). (c # t, Suc n)) (wiki_close cs))"

definition split_at :: "char \<Rightarrow> string \<Rightarrow> string \<times> string" where
  "split_at d s = (takeWhile (\<lambda>c. c \<noteq> d) s, drop 1 (dropWhile (\<lambda>c. c \<noteq> d) s))"

definition wiki_pattern :: matcher where
  "wiki_pattern pre s =
     (if take 2 s = ''[['' then
        (case wiki_close (drop 2 s) of
           None \<Rightarrow> None
         | Some (t, n) \<Rightarrow> Some (2 + n, [''wiki_link'' \<mapsto> t]))
      else None)"

definition wiki_extract :: "re_match \<Rightarrow> Link option" where
  "wiki_extract m =
     (case groupdict m ''wiki_link'' of
        None \<Rightarrow> None
      | Some inner \<Rightarrow>
          (case split_at (CHR ''|'') inner of
             (lhs, txt) \<Rightarrow>
               (case split_at (CHR ''#'') lhs of
                  (tgt, anc) \<Rightarrow>
                    Some \<lparr>link_image = False, link_text = (if txt = [] then lhs else txt),
                          link_target = tgt, link_anchor = anc, link_title = []\<rparr>)))"

definition wiki_scanner :: scanner where
  "wiki_scanner =
     \<lparr>sc_pattern = wiki_pattern,
      sc_match = (\<lambda>m. groupdict m ''wiki_link'' \<noteq> None),
      sc_extract = wiki_extract\<rparr>"

definition def_pattern :: matcher where
  "def_pattern pre s =
     (case s of
        [] \<Rightarrow> None
      | c # cs \<Rightarrow>
          if c = CHR ''['' then
            (let name = takeWhile (\<lambda>x. x \<noteq> CHR '']'') cs;
                 rest = drop (length name) cs;
                 tgt = takeWhile (\<lambda>x. x \<noteq> CHR 0x0A) (drop 3 rest)
             in if take 3 rest = '']: '' \<and> name \<noteq> [] \<and> tgt \<noteq> []
                then Some (length name + length tgt + 4,
                           [''ref_text'' \<mapsto> name, ''ref_target'' \<mapsto> tgt])
                else None)
          else None)"

definition def_extract :: "string \<Rightarrow> re_match \<Rightarrow> Link option" where
  "def_extract ttl m =
     (case (groupdict m ''ref_text'', groupdict m ''ref_target'') of
        (Some name, Some tgt) \<Rightarrow>
          Some \<lparr>link_image = False, link_text = name, link_target = tgt,
                link_anchor = [], link_title = ttl\<rparr>
      | _ \<Rightarrow> None)"

text \<open>The definition recognizer; the title it gives its links is a parameter.\<close>

definition def_scanner :: "string \<Rightarrow> scanner" where
  "def_scanner ttl =
     \<lparr>sc_pattern = def_pattern,
      sc_match = (\<lambda>m. groupdict m ''ref_text'' \<noteq> None),
      sc_extract = def_extract ttl\<rparr>"

text \<open>
  A location index that knows four pages; what it answers for any other name is a
  parameter (the empty string, or \<^verbatim>\<open>None\<close>).
\<close>

definition site_index :: "string option \<Rightarrow> string \<Rightarrow> string \<Rightarrow> string option" where
  "site_index missing from_file name =
     (if name = ''Target Page'' then Some ''/srv/docs/c/target-page.md''
      else if name = ''My Page'' then Some ''/srv/docs/c/my page.md''
      else if name = ''Plain'' then Some ''/srv/docs/c/plain''
      else if name = ''Intro'' then Some ''/srv/docs/v1.2/intro''
      else missing)"

definition site :: "bool \<Rightarrow> string option \<Rightarrow> EzLinksReplacer" where
  "site dir_urls missing =
     \<lparr>root = ''/srv/docs'', file_map_search = site_index missing,
      use_directory_urls = dir_urls, scanners = [wiki_scanner],
      target_scanners = [def_scanner []], getcwd = ''/srv''\<rparr>"

text \<open>The text a list of pieces stands for.\<close>

fun pieces_text :: "piece list \<Rightarrow> string" where
  "pieces_text [] = []"
| "pieces_text (Lit c # ps) = c # pieces_text ps"
| "pieces_text (Hit m # ps) = group0 m @ pieces_text ps"


text \<open>Every link of a target map is stored under its own text.\<close>

definition keyed :: "(string \<rightharpoonup> Link) \<Rightarrow> bool" where
  "keyed tm = (\<forall>k d. tm k = Some d \<longrightarrow> link_text d = k)"

subsection \<open>Notions for the lemmas on paths\<close>

text \<open>Components as \<open>normpath\<close> keeps them: non-empty and free of separators.\<close>

definition good_comps :: "string list \<Rightarrow> bool" where
  "good_comps cs = list_all (\<lambda>c. c \<noteq> [] \<and> sep \<notin> set c) cs"

text \<open>The variable \<^verbatim>\<open>initial_slashes\<close> of \<open>normpath\<close>, and the components its loop leaves.\<close>

definition initial_slashes :: "string \<Rightarrow> nat" where
  "initial_slashes path =
     (if startswith_sep path
      then (if take 2 path = ''//'' \<and> take 3 path \<noteq> ''///'' then 2 else 1)
      else 0)"

definition comps :: "string \<Rightarrow> string list" where
  "comps path = foldl (norm_step (initial_slashes path)) [] (split_sep path)"

text \<open>What \<open>abspath\<close> hands to \<open>normpath\<close>.\<close>

definition abs_input :: "string \<Rightarrow> string \<Rightarrow> string" where
  "abs_input cwd x = (if isabs x then x else join cwd x)"

section \<open>Properties\<close>

subsection \<open>The scan and the substitution\<close>

lemma pieces_text_scan: "pieces_text (scan rx pre s) = s"
proof (induction rx pre s rule: scan.induct)
  case (1 rx pre)
  show ?case by simp
next
  case (2 rx pre c cs)
  show ?case
  proof (cases "rx pre (c # cs)")
    case None
    with 2 show ?thesis by simp
  next
    case (Some r)
    obtain n g where r: "r = (n, g)" by (cases r)
    show ?thesis
    proof (cases "n = 0")
      case True
      with 2 Some r show ?thesis by simp
    next
      case False
      with 2(3)[OF Some r[symmetric]] Some r show ?thesis by simp
    qed
  qed
qed

lemma replace_try_find:
  "replace_try self path tm m scs =
     (case find (\<lambda>sc. sc_match sc m) scs of
        None \<Rightarrow> Inr None
      | Some sc \<Rightarrow> replace_try self path tm m [sc])"
  by (induction scs) simp_all

lemma do_replace_not_broken: "snd (do_replace self path tm m) \<noteq> Inl (BrokenLink msg)"
  by (simp add: do_replace_def split: sum.splits error.splits option.splits)

lemma sub_pieces_not_broken:
  "(\<And>m. snd (repl m) \<noteq> Inl (BrokenLink msg)) \<Longrightarrow>
   snd (sub_pieces repl ps) \<noteq> Inl (BrokenLink msg)"
proof (induction ps)
  case Nil
  show ?case by simp
next
  case (Cons p ps)
  show ?case
  proof (cases p)
    case (Lit c)
    with Cons show ?thesis by (auto split: prod.splits sum.splits)
  next
    case (Hit m)
    with Cons(1)[OF Cons(2)] Cons(2)[of m] show ?thesis
      by (auto split: prod.splits sum.splits)
  qed
qed

lemma target_loop_not_broken:
  "snd (target_loop self path ms tm) \<noteq> Inl (BrokenLink msg)"
proof (induction ms arbitrary: tm)
  case Nil
  show ?case by simp
next
  case (Cons m ms)
  show ?case
    using Cons[of "fst (target_try self path m (target_scanners self) tm)"]
    by (auto split: prod.splits option.splits error.splits)
qed

lemma replace_not_broken: "snd (replace self path markdown) \<noteq> Inl (BrokenLink msg)"
proof -
  have a: "snd (build_target_map self path markdown) \<noteq> Inl (BrokenLink msg)"
    by (simp add: build_target_map_def target_loop_not_broken)
  have b: "snd (re_sub (regex self) (do_replace self path tm) markdown) \<noteq> Inl (BrokenLink msg)"
    for tm
    unfolding re_sub_def by (rule sub_pieces_not_broken) (rule do_replace_not_broken)
  show ?thesis
    using a b by (auto simp: replace_def split: prod.splits sum.splits) (metis snd_conv)
qed

lemma sub_pieces_verbatim:
  "(\<And>m. m \<in> set (hits ps) \<Longrightarrow> snd (repl m) = Inr (group0 m)) \<Longrightarrow>
   snd (sub_pieces repl ps) = Inr (pieces_text ps)"
proof (induction ps rule: hits.induct)
  case 1
  show ?case by simp
next
  case (2 c ps)
  then show ?case by (auto split: prod.splits sum.splits)
next
  case (3 m ps)
  from 3(2)[of m] have "snd (repl m) = Inr (group0 m)" by simp
  moreover from 3 have "snd (sub_pieces repl ps) = Inr (pieces_text ps)" by simp
  ultimately show ?case by (auto split: prod.splits sum.splits)
qed

lemma re_sub_verbatim:
  assumes "\<And>m. m \<in> set (finditer rx s) \<Longrightarrow> snd (repl m) = Inr (group0 m)"
  shows "snd (re_sub rx repl s) = Inr s"
  using sub_pieces_verbatim[of "scan rx [] s" repl] assms
  by (simp add: re_sub_def finditer_def pieces_text_scan)

lemma sub_pieces_total:
  "(\<And>m. m \<in> set (hits ps) \<Longrightarrow> \<exists>new. snd (repl m) = Inr new) \<Longrightarrow>
   \<exists>out. snd (sub_pieces repl ps) = Inr out"
proof (induction ps rule: hits.induct)
  case 1
  show ?case by simp
next
  case (2 c ps)
  then show ?case by (auto split: prod.splits sum.splits)
next
  case (3 m ps)
  from 3(2)[of m] obtain new where "snd (repl m) = Inr new" by auto
  moreover from 3 obtain out where "snd (sub_pieces repl ps) = Inr out" by auto
  ultimately show ?case by (auto split: prod.splits sum.splits)
qed

lemma do_replace_returns:
  "replace_try self path tm m (scanners self) \<noteq> Inl TypeError \<Longrightarrow>
   replace_try self path tm m (scanners self) \<noteq> Inl ValueError \<Longrightarrow>
   \<exists>new. snd (do_replace self path tm m) = Inr new"
  by (simp add: do_replace_def split: sum.splits error.splits option.splits)

text \<open>
  C1. A BrokenLink raised while one match is handled is caught there: \<open>do_replace\<close>
  logs one debug message and returns the matched text unchanged, and the substitution
  goes on with the pieces that follow. Neither \<open>do_replace\<close> nor \<open>replace\<close>
  ever raises BrokenLink, and when no match raises anything else the substitution pass
  returns a text.
\<close>

theorem broken_link_is_caught:
  "(replace_try self path tm m (scanners self) = Inl (BrokenLink msg) \<longrightarrow>
      do_replace self path tm m = ([''[EzLinks] '' @ msg], Inr (group0 m)) \<and>
      sub_pieces (do_replace self path tm) (Hit m # ps) =
        (case sub_pieces (do_replace self path tm) ps of
           (lg, res) \<Rightarrow> ((''[EzLinks] '' @ msg) # lg, map_sum id (\<lambda>out. group0 m @ out) res)))
   \<and> snd (do_replace self path tm m) \<noteq> Inl (BrokenLink msg')
   \<and> snd (replace self path markdown) \<noteq> Inl (BrokenLink msg')
   \<and> ((\<forall>h \<in> set (finditer (regex self) markdown).
          replace_try self path tm h (scanners self) \<noteq> Inl TypeError \<and>
          replace_try self path tm h (scanners self) \<noteq> Inl ValueError) \<longrightarrow>
        (\<exists>out. snd (re_sub (regex self) (do_replace self path tm) markdown) = Inr out))"
proof -
  have a: "do_replace self path tm m = ([''[EzLinks] '' @ msg], Inr (group0 m))"
    if "replace_try self path tm m (scanners self) = Inl (BrokenLink msg)"
    using that by (simp add: do_replace_def)
  have b: "sub_pieces (do_replace self path tm) (Hit m # ps) =
        (case sub_pieces (do_replace self path tm) ps of
           (lg, res) \<Rightarrow> ((''[EzLinks] '' @ msg) # lg, map_sum id (\<lambda>out. group0 m @ out) res))"
    if "replace_try self path tm m (scanners self) = Inl (BrokenLink msg)"
    using a[OF that] by (simp split: prod.splits sum.splits)
  have c: "\<exists>out. snd (re_sub (regex self) (do_replace self path tm) markdown) = Inr out"
    if "\<forall>h \<in> set (finditer (regex self) markdown).
          replace_try self path tm h (scanners self) \<noteq> Inl TypeError \<and>
          replace_try self path tm h (scanners self) \<noteq> Inl ValueError"
    unfolding re_sub_def
    by (rule sub_pieces_total) (use that in \<open>simp add: finditer_def do_replace_returns\<close>)
  show ?thesis
    using a b c do_replace_not_broken replace_not_broken by blast
qed

theorem broken_link_is_caught_witness:
  "replace_try (site True (Some [])) ''a/b.md'' Map.empty
     \<lparr>group0 = ''[[Nope]]'', groupdict = [''wiki_link'' \<mapsto> ''Nope'']\<rparr>
     (scanners (site True (Some [])))
     = Inl (BrokenLink (apostrophe # ''Nope'' @ apostrophe # '' not found.''))
   \<and> do_replace (site True (Some [])) ''a/b.md'' Map.empty
     \<lparr>group0 = ''[[Nope]]'', groupdict = [''wiki_link'' \<mapsto> ''Nope'']\<rparr>
     = ([''[EzLinks] '' @ apostrophe # ''Nope'' @ apostrophe # '' not found.''], Inr ''[[Nope]]'')
   \<and> snd (replace (site True (Some [])) ''a/b.md'' ''[[Nope]] [[Target Page]]'')
       \<noteq> Inl (BrokenLink (apostrophe # ''Nope'' @ apostrophe # '' not found.''))
   \<and> (\<exists>out. snd (re_sub (regex (site True (Some []))) (do_replace (site True (Some [])) ''a/b.md'' Map.empty)
         ''[[Nope]] [[Target Page]]'') = Inr out)"
proof -
  have h1: "replace_try (site True (Some [])) ''a/b.md'' Map.empty
     \<lparr>group0 = ''[[Nope]]'', groupdict = [''wiki_link'' \<mapsto> ''Nope'']\<rparr>
     (scanners (site True (Some [])))
     = Inl (BrokenLink (apostrophe # ''Nope'' @ apostrophe # '' not found.''))"
    by code_simp
  have h2: "\<forall>h \<in> set (finditer (regex (site True (Some []))) ''[[Nope]] [[Target Page]]'').
          replace_try (site True (Some [])) ''a/b.md'' Map.empty h (scanners (site True (Some []))) \<noteq> Inl TypeError \<and>
          replace_try (site True (Some [])) ''a/b.md'' Map.empty h (scanners (site True (Some []))) \<noteq> Inl ValueError"
    by code_simp
  show ?thesis
    using broken_link_is_caught[of "site True (Some [])" "''a/b.md''" Map.empty
        "\<lparr>group0 = ''[[Nope]]'', groupdict = [''wiki_link'' \<mapsto> ''Nope'']\<rparr>"
        "apostrophe # ''Nope'' @ apostrophe # '' not found.''" "[]"
        "apostrophe # ''Nope'' @ apostrophe # '' not found.''" "''[[Nope]] [[Target Page]]''"]
      h1 h2
    by simp
qed

text \<open>
  C9. When every match of the document is emitted as its own matched text, \<open>replace\<close>
  returns the document itself, so a second \<open>replace\<close> with the same path, on the
  output of the first, returns that output again.
\<close>

theorem replace_idempotent_on_unresolved:
  assumes "snd (build_target_map self path markdown) = Inr tm"
      and "\<forall>m \<in> set (finditer (regex self) markdown).
             snd (do_replace self path tm m) = Inr (group0 m)"
  shows "snd (replace self path markdown) = Inr markdown \<and>
         (\<forall>out. snd (replace self path markdown) = Inr out \<longrightarrow>
                snd (replace self path out) = Inr out)"
proof -
  have "snd (re_sub (regex self) (do_replace self path tm) markdown) = Inr markdown"
    by (rule re_sub_verbatim) (use assms(2) in simp)
  with assms(1) have "snd (replace self path markdown) = Inr markdown"
    by (auto simp: replace_def split: prod.splits sum.splits)
  then show ?thesis by simp
qed

theorem replace_idempotent_on_unresolved_witness:
  "snd (build_target_map (site True (Some [])) ''a/b.md'' ''see [[Nope]], [[]] and `[[Target Page]]`'')
     = Inr Map.empty
   \<and> snd (replace (site True (Some [])) ''a/b.md'' ''see [[Nope]], [[]] and `[[Target Page]]`'')
     = Inr ''see [[Nope]], [[]] and `[[Target Page]]`''"
proof -
  have h1: "snd (build_target_map (site True (Some [])) ''a/b.md'' ''see [[Nope]], [[]] and `[[Target Page]]`'')
     = Inr Map.empty"
    by (simp add: build_target_map_def finditer_def target_regex_def site_def def_scanner_def
          def_pattern_def)
  have h2: "\<forall>m \<in> set (finditer (regex (site True (Some []))) ''see [[Nope]], [[]] and `[[Target Page]]`'').
             snd (do_replace (site True (Some [])) ''a/b.md'' Map.empty m) = Inr (group0 m)"
    by code_simp
  show ?thesis
    using replace_idempotent_on_unresolved[OF h1 h2] h1 by simp
qed







subsection \<open>Occurrences served from the target map\<close>

lemma render_title_as_text:
  "render d True =
     (if link_image d then ''!'' else []) @ ''['' @
     (if link_title d \<noteq> [] then link_title d else link_text d) @ '']('' @
     link_target d @ (if link_anchor d \<noteq> [] then CHR ''#'' # link_anchor d else []) @ '')''"
  by (simp add: render_def)

lemma render_plain:
  "render l False =
     (if link_image l then ''!'' else []) @ ''['' @ link_text l @ '']('' @
     link_target l @ (if link_anchor l \<noteq> [] then CHR ''#'' # link_anchor l else []) @
     (if link_title l \<noteq> [] then CHR '' '' # CHR 0x22 # link_title l @ [CHR 0x22] else []) @ '')''"
  by (simp add: render_def)

lemma do_replace_from_map:
  assumes "find (\<lambda>sc. sc_match sc m) (scanners self) = Some sc"
      and "sc_extract sc m = Some link"
      and "link_target link \<noteq> []"
      and "tm (link_target link) = Some d"
  shows "do_replace self path tm m = ([], Inr (render d True))"
proof -
  from assms(1) have "sc_match sc m" by (auto simp: find_Some_iff)
  with assms have "replace_try self path tm m (scanners self) = Inr (Some (render d True))"
    by (subst replace_try_find) simp
  then show ?thesis by (simp add: do_replace_def)
qed

text \<open>
  C10. An occurrence whose non-empty target is a key of the target map is replaced by
  the stored definition link rendered with \<open>title_as_text\<close>: its image flag, its
  title or else its text as the label, its target as stored (not percent-encoded) and its
  anchor. Any other occurrence with the same target gives the same output, whatever its
  own text, anchor, title and image flag.
\<close>

theorem target_map_link_rendered:
  assumes "find (\<lambda>sc. sc_match sc m) (scanners self) = Some sc"
      and "sc_extract sc m = Some link"
      and "link_target link \<noteq> []"
      and "tm (link_target link) = Some d"
  shows "do_replace self path tm m = ([], Inr (render d True))
       \<and> render d True =
           (if link_image d then ''!'' else []) @ ''['' @
           (if link_title d \<noteq> [] then link_title d else link_text d) @ '']('' @
           link_target d @ (if link_anchor d \<noteq> [] then CHR ''#'' # link_anchor d else []) @ '')''
       \<and> (\<forall>m' sc' link'.
             find (\<lambda>sc. sc_match sc m') (scanners self) = Some sc' \<and>
             sc_extract sc' m' = Some link' \<and> link_target link' = link_target link \<longrightarrow>
             do_replace self path tm m' = do_replace self path tm m)"
proof -
  have a: "do_replace self path tm m = ([], Inr (render d True))"
    using assms by (rule do_replace_from_map)
  have "do_replace self path tm m' = ([], Inr (render d True))"
    if "find (\<lambda>sc. sc_match sc m') (scanners self) = Some sc'"
      and "sc_extract sc' m' = Some link'" and "link_target link' = link_target link"
    for m' sc' link'
    using that assms(3,4) by (intro do_replace_from_map[where sc=sc' and link=link']) simp_all
  with a show ?thesis by (simp add: render_title_as_text)
qed

theorem target_map_link_rendered_witness:
  "do_replace (site True None) ''a/b.md''
     [''r1'' \<mapsto> \<lparr>link_image = False, link_text = ''r1'', link_target = ''../c/my page.md'',
                  link_anchor = [], link_title = ''My Title''\<rparr>]
     \<lparr>group0 = ''[[r1#x|foo]]'', groupdict = [''wiki_link'' \<mapsto> ''r1#x|foo'']\<rparr>
   = ([], Inr ''[My Title](../c/my page.md)'')"
proof -
  have h1: "find (\<lambda>sc. sc_match sc \<lparr>group0 = ''[[r1#x|foo]]'', groupdict = [''wiki_link'' \<mapsto> ''r1#x|foo'']\<rparr>)
              (scanners (site True None)) = Some wiki_scanner"
    by (simp add: site_def wiki_scanner_def)
  have h2: "sc_extract wiki_scanner \<lparr>group0 = ''[[r1#x|foo]]'', groupdict = [''wiki_link'' \<mapsto> ''r1#x|foo'']\<rparr>
      = Some \<lparr>link_image = False, link_text = ''foo'', link_target = ''r1'',
               link_anchor = ''x'', link_title = []\<rparr>"
    by (simp add: wiki_scanner_def wiki_extract_def split_at_def)
  show ?thesis
    using target_map_link_rendered[where tm="[''r1'' \<mapsto> \<lparr>link_image = False, link_text = ''r1'',
        link_target = ''../c/my page.md'', link_anchor = [], link_title = ''My Title''\<rparr>]"
        and path="''a/b.md''", OF h1 h2]
    by simp
qed

lemma target_try_keyed:
  "keyed tm \<Longrightarrow> keyed (fst (target_try self path m scs tm))"
proof (induction scs arbitrary: tm)
  case Nil
  then show ?case by simp
next
  case (Cons sc scs)
  have upd: "keyed (tm(link_text l \<mapsto> l\<lparr>link_target := r\<rparr>))" for l r
    using Cons.prems by (simp add: keyed_def)
  show ?case
  proof (cases "sc_match sc m")
    case False
    with Cons.IH[OF Cons.prems] show ?thesis by simp
  next
    case True
    show ?thesis
    proof (cases "sc_extract sc m")
      case None
      with True Cons.prems show ?thesis by simp
    next
      case (Some link)
      show ?thesis
      proof (cases "if link_target link = [] then
                      (if link_anchor link \<noteq> [] then Inr (join (root self) path)
                       else Inl (no_target m))
                    else search_target self path (link_target link)")
        case (Inl e)
        with True Some Cons.prems show ?thesis by simp
      next
        case (Inr target)
        show ?thesis
        proof (cases "relpath (getcwd self) target (abs_from self path)")
          case (Inl e)
          with True Some Inr Cons.prems show ?thesis by simp
        next
          case rel: (Inr rel)
          have eq: "target_try self path m (sc # scs) tm =
                  target_try self path m scs (tm(link_text link \<mapsto> link\<lparr>link_target := rel\<rparr>))"
            using True Some Inr rel by simp
          show ?thesis unfolding eq by (rule Cons.IH[OF upd])
        qed
      qed
    qed
  qed
qed

lemma target_loop_keyed:
  "keyed tm \<Longrightarrow> target_loop self path ms tm = (lg, Inr tm') \<Longrightarrow> keyed tm'"
proof (induction ms arbitrary: tm lg)
  case Nil
  then show ?case by simp
next
  case (Cons m ms)
  obtain tm1 e where t: "target_try self path m (target_scanners self) tm = (tm1, e)"
    by (cases "target_try self path m (target_scanners self) tm")
  with target_try_keyed[OF Cons.prems(1), of self path m "target_scanners self"]
  have k1: "keyed tm1" by simp
  show ?case
  proof (cases e)
    case None
    with t Cons.prems(2) have "target_loop self path ms tm1 = (lg, Inr tm')" by simp
    with Cons.IH[OF k1] show ?thesis .
  next
    case (Some err)
    with t Cons.prems(2) obtain lg' where "target_loop self path ms tm1 = (lg', Inr tm')"
      by (cases err) (auto split: prod.splits)
    with Cons.IH[OF k1] show ?thesis .
  qed
qed

lemma build_target_map_keyed:
  assumes "snd (build_target_map self path markdown) = Inr tm" and "tm k = Some d"
  shows "link_text d = k"
proof -
  have "keyed Map.empty" by (simp add: keyed_def)
  moreover from assms(1) obtain lg where
    "target_loop self path (finditer (target_regex self) markdown) Map.empty = (lg, Inr tm)"
    by (cases "build_target_map self path markdown") (simp add: build_target_map_def)
  ultimately have "keyed tm" by (rule target_loop_keyed)
  with assms(2) show ?thesis by (simp add: keyed_def)
qed

text \<open>
  C4, amended. For an occurrence whose target is a key of the target map that
  \<open>build_target_map\<close> built, the label of the replacement is the definition's title
  when that is non-empty, and otherwise the definition's own text, which is the key, that
  is the occurrence's target; the occurrence's own text is not used.
\<close>

theorem target_map_label:
  assumes "snd (build_target_map self path markdown) = Inr tm"
      and "find (\<lambda>sc. sc_match sc m) (scanners self) = Some sc"
      and "sc_extract sc m = Some link"
      and "link_target link \<noteq> []"
      and "tm (link_target link) = Some d"
  shows "do_replace self path tm m =
           ([], Inr ((if link_image d then ''!'' else []) @ ''['' @
              (if link_title d \<noteq> [] then link_title d else link_target link) @ '']('' @
              link_target d @ (if link_anchor d \<noteq> [] then CHR ''#'' # link_anchor d else []) @ '')''))
       \<and> link_text d = link_target link"
  using do_replace_from_map[where tm=tm and path=path, OF assms(2-5)] build_target_map_keyed[OF assms(1,5)]
  by (simp add: render_title_as_text)

theorem target_map_label_witness:
  "\<exists>tm. snd (build_target_map ((site True None)\<lparr>target_scanners := [def_scanner ''My Title'']\<rparr>)
             ''a/b.md'' ''[r1]: My Page'') = Inr tm
      \<and> do_replace ((site True None)\<lparr>target_scanners := [def_scanner ''My Title'']\<rparr>) ''a/b.md'' tm
           \<lparr>group0 = ''[[r1|foo]]'', groupdict = [''wiki_link'' \<mapsto> ''r1|foo'']\<rparr>
         = ([], Inr ''[My Title](../c/my page.md)'')"
proof -
  have "case snd (build_target_map ((site True None)\<lparr>target_scanners := [def_scanner ''My Title'']\<rparr>)
             ''a/b.md'' ''[r1]: My Page'') of
          Inl e \<Rightarrow> False
        | Inr tm \<Rightarrow> tm ''r1'' = Some \<lparr>link_image = False, link_text = ''r1'',
             link_target = ''../c/my page.md'', link_anchor = [], link_title = ''My Title''\<rparr>"
    by code_simp
  then obtain tm where tm:
    "snd (build_target_map ((site True None)\<lparr>target_scanners := [def_scanner ''My Title'']\<rparr>)
             ''a/b.md'' ''[r1]: My Page'') = Inr tm"
    "tm ''r1'' = Some \<lparr>link_image = False, link_text = ''r1'',
             link_target = ''../c/my page.md'', link_anchor = [], link_title = ''My Title''\<rparr>"
    by (auto split: sum.splits)
  have h1: "find (\<lambda>sc. sc_match sc \<lparr>group0 = ''[[r1|foo]]'', groupdict = [''wiki_link'' \<mapsto> ''r1|foo'']\<rparr>)
              (scanners ((site True None)\<lparr>target_scanners := [def_scanner ''My Title'']\<rparr>))
            = Some wiki_scanner"
    by (simp add: site_def wiki_scanner_def)
  have h2: "sc_extract wiki_scanner \<lparr>group0 = ''[[r1|foo]]'', groupdict = [''wiki_link'' \<mapsto> ''r1|foo'']\<rparr>
      = Some \<lparr>link_image = False, link_text = ''foo'', link_target = ''r1'',
               link_anchor = [], link_title = []\<rparr>"
    by (simp add: wiki_scanner_def wiki_extract_def split_at_def)
  show ?thesis
    using target_map_label[where tm=tm, OF tm(1) h1 h2] tm
    by (intro exI[of _ tm]) simp
qed

text \<open>The claim as first stated fails: the label is not the text of the occurrence.\<close>

theorem label_is_not_occurrence_text:
  "sc_extract wiki_scanner \<lparr>group0 = ''[[r1|foo]]'', groupdict = [''wiki_link'' \<mapsto> ''r1|foo'']\<rparr>
     = Some \<lparr>link_image = False, link_text = ''foo'', link_target = ''r1'',
              link_anchor = [], link_title = []\<rparr>
   \<and> snd (replace (site True None) ''a/b.md'' (''[r1]: My Page'' @ CHR 0x0A # ''see [[r1|foo]]''))
     = Inr (''[r1]: My Page'' @ CHR 0x0A # ''see [r1](../c/my page.md)'')
   \<and> snd (replace (site True None) ''a/b.md'' (''[r1]: My Page'' @ CHR 0x0A # ''see [[r1|foo]]''))
     \<noteq> Inr (''[r1]: My Page'' @ CHR 0x0A # ''see [foo](../c/my page.md)'')"
  by code_simp

subsection \<open>Occurrences resolved through the location index\<close>

lemma hexdigit_not_space: "hexdigit n \<noteq> CHR '' ''"
proof -
  have "n mod 16 < length ''0123456789ABCDEF''" by simp
  then have "hexdigit n \<in> set ''0123456789ABCDEF''"
    unfolding hexdigit_def by (rule nth_mem)
  then show ?thesis by auto
qed

lemma quote_byte_no_space: "CHR '' '' \<notin> set (quote_byte c)"
proof (cases "always_safe c \<or> c = sep")
  case True
  moreover have "\<not> always_safe (CHR '' '')" by (simp add: always_safe_def)
  ultimately have "c \<noteq> CHR '' ''" by auto
  with True show ?thesis by (simp add: quote_byte_def)
next
  case False
  then show ?thesis
    using hexdigit_not_space[of "of_char c div 16"] hexdigit_not_space[of "of_char c mod 16"]
    by (auto simp: quote_byte_def)
qed

lemma quote_no_space: "CHR '' '' \<notin> set (quote s)"
  by (induction s) (simp_all add: quote_def quote_byte_no_space)

lemma quote_space: "quote (a @ '' '' @ b) = quote a @ ''%20'' @ quote b"
  by (simp add: quote_def quote_byte_def always_safe_def hexdigit_def)

lemma do_replace_quoted:
  assumes "find (\<lambda>sc. sc_match sc m) (scanners self) = Some sc"
      and "sc_extract sc m = Some link"
      and "(link_target link = [] \<and> link_anchor link \<noteq> [] \<and> t = join (root self) path)
           \<or> (link_target link \<noteq> [] \<and> tm (link_target link) = None
               \<and> search_target self path (link_target link) = Inr t)"
      and "relpath (getcwd self) t (abs_from self path) = Inr rel"
  shows "do_replace self path tm m = ([], Inr (render (link\<lparr>link_target := quote rel\<rparr>) False))"
proof -
  from assms(1) have "sc_match sc m" by (auto simp: find_Some_iff)
  with assms have "replace_try self path tm m (scanners self)
      = Inr (Some (render (link\<lparr>link_target := quote rel\<rparr>) False))"
    by (subst replace_try_find) (auto simp: quote_and_render_def)
  then show ?thesis by (simp add: do_replace_def)
qed

text \<open>
  C7, amended. For an occurrence that is not served from the target map (its target is
  resolved through the location index, or it is a self-anchor), the output holds the
  percent-encoded relative path, in which no space is left and every space has become
  \<^verbatim>\<open>%20\<close>, followed by \<^verbatim>\<open>#\<close> and the anchor as it is when the anchor is
  non-empty.
\<close>

theorem resolved_path_is_quoted:
  assumes "find (\<lambda>sc. sc_match sc m) (scanners self) = Some sc"
      and "sc_extract sc m = Some link"
      and "(link_target link = [] \<and> link_anchor link \<noteq> [] \<and> t = join (root self) path)
           \<or> (link_target link \<noteq> [] \<and> tm (link_target link) = None
               \<and> search_target self path (link_target link) = Inr t)"
      and "relpath (getcwd self) t (abs_from self path) = Inr rel"
  shows "do_replace self path tm m =
           ([], Inr ((if link_image link then ''!'' else []) @ ''['' @ link_text link @ '']('' @
              quote rel @ (if link_anchor link \<noteq> [] then CHR ''#'' # link_anchor link else []) @
              (if link_title link \<noteq> []
               then CHR '' '' # CHR 0x22 # link_title link @ [CHR 0x22] else []) @ '')''))
       \<and> CHR '' '' \<notin> set (quote rel)
       \<and> (\<forall>a b. rel = a @ '' '' @ b \<longrightarrow> quote rel = quote a @ ''%20'' @ quote b)"
  using do_replace_quoted[where tm=tm, OF assms] quote_no_space[of rel] quote_space
  by (simp add: render_plain)

theorem resolved_path_is_quoted_witness:
  "do_replace (site True None) ''a/b.md'' Map.empty
     \<lparr>group0 = ''[[My Page#sec|here]]'', groupdict = [''wiki_link'' \<mapsto> ''My Page#sec|here'']\<rparr>
   = ([], Inr ''[here](../c/my%20page.md#sec)'')"
proof -
  have h1: "find (\<lambda>sc. sc_match sc \<lparr>group0 = ''[[My Page#sec|here]]'',
                groupdict = [''wiki_link'' \<mapsto> ''My Page#sec|here'']\<rparr>)
              (scanners (site True None)) = Some wiki_scanner"
    by (simp add: site_def wiki_scanner_def)
  have h2: "sc_extract wiki_scanner \<lparr>group0 = ''[[My Page#sec|here]]'',
                groupdict = [''wiki_link'' \<mapsto> ''My Page#sec|here'']\<rparr>
      = Some \<lparr>link_image = False, link_text = ''here'', link_target = ''My Page'',
               link_anchor = ''sec'', link_title = []\<rparr>"
    by (simp add: wiki_scanner_def wiki_extract_def split_at_def)
  have h3: "search_target (site True None) ''a/b.md'' ''My Page'' = Inr ''/srv/docs/c/my page.md''"
    by code_simp
  have h4: "relpath (getcwd (site True None)) ''/srv/docs/c/my page.md''
              (abs_from (site True None) ''a/b.md'') = Inr ''../c/my page.md''"
    by code_simp
  have h5: "quote ''../c/my page.md'' = ''../c/my%20page.md''"
    by code_simp
  show ?thesis
    using resolved_path_is_quoted[where tm=Map.empty and t="''/srv/docs/c/my page.md''",
        OF h1 h2 _ h4] h3 h5
    by simp
qed

text \<open>
  The claim as first stated fails for an occurrence served from the target map: the
  space of the definition's path is emitted raw.
\<close>

theorem target_map_path_not_quoted:
  "relpath ''/srv'' ''/srv/docs/c/my page.md'' (abs_from (site True None) ''a/b.md'')
     = Inr ''../c/my page.md''
   \<and> snd (replace (site True None) ''a/b.md'' (''[r1]: My Page'' @ CHR 0x0A # ''[[r1]] [[My Page]]''))
     = Inr (''[r1]: My Page'' @ CHR 0x0A # ''[r1](../c/my page.md) [My Page](../c/my%20page.md)'')"
  by code_simp

subsection \<open>The relative path of a file from its own directory\<close>

lemma split_sep_not_Nil: "split_sep s \<noteq> []"
  by (cases s) (auto split: list.splits)

lemma split_sep_nosep: "sep \<notin> set s \<Longrightarrow> split_sep s = [s]"
  by (induction s) auto

lemma split_sep_append: "split_sep (a @ sep # b) = split_sep a @ split_sep b"
proof (induction a)
  case Nil
  show ?case by simp
next
  case (Cons c a)
  show ?case
  proof (cases "c = sep")
    case True
    with Cons show ?thesis by simp
  next
    case False
    obtain w ws where ws: "split_sep a = w # ws"
      using split_sep_not_Nil[of a] by (cases "split_sep a") auto
    with Cons False show ?thesis by simp
  qed
qed

lemma split_sep_replicate: "split_sep (replicate j sep @ x) = replicate j [] @ split_sep x"
  by (induction j) auto

lemma split_sep_only_seps: "split_sep (replicate j sep) = replicate (Suc j) []"
  by (induction j) auto

lemma split_sep_parts: "list_all (\<lambda>c. sep \<notin> set c) (split_sep s)"
  by (induction s) (auto split: list.splits)

lemma norm_step_good:
  "good_comps acc \<Longrightarrow> sep \<notin> set part \<Longrightarrow> good_comps (norm_step i acc part)"
  by (auto simp: norm_step_def good_comps_def list_all_iff dest: in_set_butlastD)

lemma foldl_norm_step_good:
  "good_comps acc \<Longrightarrow> list_all (\<lambda>c. sep \<notin> set c) ps \<Longrightarrow>
   good_comps (foldl (norm_step i) acc ps)"
  by (induction ps arbitrary: acc) (auto simp: norm_step_good)

lemma foldl_norm_step_empties: "foldl (norm_step i) acc (replicate j []) = acc"
  by (induction j) (auto simp: norm_step_def)

lemma split_sep_join_good:
  "good_comps cs \<Longrightarrow> cs \<noteq> [] \<Longrightarrow> split_sep (sep_join cs) = cs"
proof (induction cs rule: sep_join.induct)
  case 1
  then show ?case by simp
next
  case (2 x)
  then show ?case by (simp add: good_comps_def split_sep_nosep)
next
  case (3 x y ys)
  then have "split_sep (x @ sep # sep_join (y # ys)) = split_sep x @ (y # ys)"
    by (simp add: split_sep_append good_comps_def)
  with 3 show ?case by (simp add: good_comps_def split_sep_nosep)
qed

lemma filter_split_norm:
  assumes "good_comps cs" and "0 < i"
  shows "filter (\<lambda>x. x \<noteq> []) (split_sep (replicate i sep @ sep_join cs)) = cs"
proof (cases cs)
  case Nil
  then show ?thesis by (simp add: split_sep_only_seps)
next
  case (Cons c cs')
  with assms have "split_sep (sep_join cs) = cs" by (intro split_sep_join_good) simp_all
  moreover from assms have "filter (\<lambda>x. x \<noteq> []) cs = cs"
    by (simp add: good_comps_def list_all_iff filter_id_conv)
  ultimately show ?thesis by (simp add: split_sep_replicate)
qed

lemma comps_good: "good_comps (comps path)"
  unfolding comps_def by (rule foldl_norm_step_good) (simp_all add: good_comps_def split_sep_parts)

lemma normpath_abs:
  assumes "startswith_sep path"
  shows "normpath path = replicate (initial_slashes path) sep @ sep_join (comps path)"
proof -
  from assms have "path \<noteq> []" by (auto simp: startswith_sep_def)
  moreover from assms have "0 < initial_slashes path" by (simp add: initial_slashes_def)
  ultimately show ?thesis
    by (auto simp: normpath_def initial_slashes_def comps_def Let_def)
qed

lemma path_list_abs:
  assumes "startswith_sep path"
  shows "filter (\<lambda>x. x \<noteq> []) (split_sep (normpath path)) = comps path"
proof -
  from assms have "0 < initial_slashes path" by (simp add: initial_slashes_def)
  with comps_good[of path] show ?thesis
    by (simp add: normpath_abs[OF assms] filter_split_norm)
qed

lemma commonprefix_len_append: "commonprefix_len xs (xs @ ys) = length xs"
  by (induction xs) simp_all

lemma norm_step_pos: "0 < i \<Longrightarrow> norm_step i = norm_step (Suc 0)"
  by (intro ext) (simp add: norm_step_def)

lemma comps_abs:
  assumes "startswith_sep path"
  shows "comps path = foldl (norm_step (Suc 0)) [] (split_sep path)"
proof -
  from assms have "0 < initial_slashes path" by (simp add: initial_slashes_def)
  then have "norm_step (initial_slashes path) = norm_step (Suc 0)" by (rule norm_step_pos)
  then show ?thesis by (simp only: comps_def)
qed

lemma norm_step_name:
  "name \<noteq> [] \<Longrightarrow> name \<noteq> ''.'' \<Longrightarrow> name \<noteq> ''..'' \<Longrightarrow> norm_step i acc name = acc @ [name]"
  by (simp add: norm_step_def)

lemma comps_child:
  assumes "startswith_sep q0" and "sep \<notin> set name"
      and "name \<noteq> []" and "name \<noteq> ''.''" and "name \<noteq> ''..''"
  shows "comps (q0 @ replicate (Suc m) sep @ name) = comps q0 @ [name]"
proof -
  have abs: "startswith_sep (q0 @ replicate (Suc m) sep @ name)"
    using assms(1) by (cases q0) (simp_all add: startswith_sep_def)
  have "q0 @ replicate (Suc m) sep @ name = q0 @ sep # (replicate m sep @ name)"
    by simp
  moreover have sn: "split_sep name = [name]"
    using assms(2) by (rule split_sep_nosep)
  ultimately have "split_sep (q0 @ replicate (Suc m) sep @ name)
      = split_sep q0 @ replicate m [] @ [name]"
    by (simp only: split_sep_append split_sep_replicate sn)
  then have sp: "split_sep (q0 @ replicate (Suc m) sep @ name)
      = (split_sep q0 @ replicate m []) @ [name]"
    by simp
  have c1: "comps (q0 @ replicate (Suc m) sep @ name)
      = foldl (norm_step (Suc 0)) [] (split_sep (q0 @ replicate (Suc m) sep @ name))"
    by (rule comps_abs[OF abs])
  have c0: "comps q0 = foldl (norm_step (Suc 0)) [] (split_sep q0)"
    by (rule comps_abs[OF assms(1)])
  show ?thesis
    unfolding c1 c0 sp foldl_append
    by (simp add: foldl_norm_step_empties norm_step_name assms(3-5))
qed

lemma comps_only_seps: "comps (replicate (Suc k) sep) = []"
proof -
  have "startswith_sep (replicate (Suc k) sep)" by (simp add: startswith_sep_def)
  then show ?thesis
    using foldl_norm_step_empties[of "Suc 0" "[]" "Suc (Suc k)"]
    by (simp only: comps_abs split_sep_only_seps)
qed

lemma comps_root_child:
  assumes "sep \<notin> set name" and "name \<noteq> []" and "name \<noteq> ''.''" and "name \<noteq> ''..''"
  shows "comps (replicate (Suc k) sep @ name) = [name]"
proof -
  have abs: "startswith_sep (replicate (Suc k) sep @ name)" by (simp add: startswith_sep_def)
  have sn: "split_sep name = [name]"
    using assms(1) by (rule split_sep_nosep)
  have "split_sep (replicate (Suc k) sep @ name) = replicate (Suc k) [] @ [name]"
    by (simp only: split_sep_replicate sn)
  then have sp: "split_sep (replicate (Suc k) sep @ name) = replicate (Suc k) [] @ [name]" .
  have c1: "comps (replicate (Suc k) sep @ name)
      = foldl (norm_step (Suc 0)) [] (split_sep (replicate (Suc k) sep @ name))"
    by (rule comps_abs[OF abs])
  show ?thesis
    unfolding c1 sp foldl_append foldl_norm_step_empties
    by (simp add: norm_step_name assms(2-4))
qed

lemma abs_input_abs: "isabs cwd \<Longrightarrow> startswith_sep (abs_input cwd x)"
  by (cases cwd) (auto simp: abs_input_def isabs_def join_def startswith_sep_def)

lemma relpath_comps:
  assumes "isabs cwd" and "path \<noteq> []"
  shows "relpath cwd path start =
     (let start_list = comps (abs_input cwd start);
          path_list = comps (abs_input cwd path);
          i = commonprefix_len start_list path_list;
          rel_list = replicate (length start_list - i) ''..'' @ drop i path_list
      in if rel_list = [] then Inr ''.'' else Inr (join_all rel_list))"
  using assms
  by (simp add: relpath_def abspath_def abs_input_def[symmetric] path_list_abs abs_input_abs)

lemma relpath_child:
  assumes "isabs cwd" and "path \<noteq> []"
      and "comps (abs_input cwd path) = comps (abs_input cwd start) @ [name]"
  shows "relpath cwd path start = Inr name"
  using assms(3)
  by (simp add: relpath_comps[OF assms(1,2)] commonprefix_len_append join_all_def)

lemma takeWhile_eq_replicate:
  "takeWhile (\<lambda>c. c = x) xs = replicate (length (takeWhile (\<lambda>c. c = x) xs)) x"
  by (induction xs) auto

lemma rstrip_sep_decomp: "\<exists>m. d = rstrip_sep d @ replicate m sep"
proof -
  obtain n where n: "takeWhile (\<lambda>c. c = sep) (rev d) = replicate n sep"
    using takeWhile_eq_replicate[of sep "rev d"] by (rule that)
  have "rev (rev d) = rev (takeWhile (\<lambda>c. c = sep) (rev d) @ dropWhile (\<lambda>c. c = sep) (rev d))"
    by (simp only: takeWhile_dropWhile_id)
  then have "d = rev (dropWhile (\<lambda>c. c = sep) (rev d)) @ rev (replicate n sep)"
    by (simp only: rev_rev_ident rev_append n)
  then have "d = rstrip_sep d @ replicate n sep"
    by (simp add: rstrip_sep_def)
  then show ?thesis ..
qed

lemma rstrip_sep_Nil:
  assumes "rstrip_sep d = []"
  shows "d = replicate (length d) sep"
proof -
  obtain m where m: "d = rstrip_sep d @ replicate m sep"
    using rstrip_sep_decomp[of d] by (rule exE)
  have "d = replicate m sep"
    by (subst m) (simp add: assms)
  then have "replicate (length d) sep = replicate m sep" by simp
  with \<open>d = replicate m sep\<close> show ?thesis by simp
qed

lemma dirname_child:
  assumes "sep \<notin> set name"
  shows "dirname (d @ sep # name) =
     (if d = replicate (length d) sep then d @ [sep] else rstrip_sep d)"
proof -
  have "dropWhile (\<lambda>c. c \<noteq> sep) (rev name @ sep # rev d) = sep # rev d"
    using assms by (subst dropWhile_append2) auto
  then have head: "rev (dropWhile (\<lambda>c. c \<noteq> sep) (rev (d @ sep # name))) = d @ [sep]"
    by simp
  have all: "d @ [sep] = replicate (length (d @ [sep])) sep \<longleftrightarrow> d = replicate (length d) sep"
  proof
    assume "d @ [sep] = replicate (length (d @ [sep])) sep"
    then have "d @ [sep] = replicate (length d) sep @ [sep]"
      by (simp add: replicate_append_same)
    then show "d = replicate (length d) sep" by simp
  next
    assume "d = replicate (length d) sep"
    then have "d @ [sep] = replicate (length d) sep @ [sep]" by simp
    then show "d @ [sep] = replicate (length (d @ [sep])) sep"
      by (simp add: replicate_append_same)
  qed
  have strip: "rstrip_sep (d @ [sep]) = rstrip_sep d"
    by (simp add: rstrip_sep_def)
  show ?thesis
  proof (cases "d = replicate (length d) sep")
    case True
    with all have "d @ [sep] = replicate (length (d @ [sep])) sep" by (rule_tac iffD2)
    then show ?thesis
      unfolding dirname_def head Let_def using True by (simp only: if_True simp_thms if_False)
  next
    case False
    with all have "d @ [sep] \<noteq> replicate (length (d @ [sep])) sep" by blast
    then show ?thesis
      unfolding dirname_def head Let_def using False strip by simp
  qed
qed

lemma abs_input_append:
  assumes "isabs cwd" and "x \<noteq> []"
  shows "abs_input cwd (x @ y) = abs_input cwd x @ y"
proof -
  from assms(2) obtain c cs where x: "x = c # cs" by (cases x) auto
  from assms(1) have "cwd \<noteq> []" by (auto simp: isabs_def startswith_sep_def)
  then show ?thesis
    by (simp add: abs_input_def isabs_def startswith_sep_def join_def x)
qed

lemma relpath_own_directory:
  assumes "isabs cwd" and "sep \<notin> set name"
      and "name \<noteq> []" and "name \<noteq> ''.''" and "name \<noteq> ''..''"
  shows "relpath cwd (d @ sep # name) (dirname (d @ sep # name)) = Inr name"
proof -
  have pne: "d @ sep # name \<noteq> []" by simp
  have "comps (abs_input cwd (d @ sep # name))
      = comps (abs_input cwd (dirname (d @ sep # name))) @ [name]"
  proof (cases "d = replicate (length d) sep")
    case True
    define k where "k = length d"
    have dk: "d = replicate k sep" unfolding k_def by (rule True)
    have "dirname (d @ sep # name) = d @ [sep]"
      using dirname_child[OF assms(2), of d] True by simp
    then have dn: "dirname (d @ sep # name) = replicate (Suc k) sep"
      by (subst (asm) (2) dk) (simp add: replicate_append_same)
    have "d @ sep # name = (replicate k sep @ [sep]) @ name"
      by (subst dk) simp
    then have p: "d @ sep # name = replicate (Suc k) sep @ name"
      by (simp only: replicate_append_same replicate_Suc)
    have a1: "abs_input cwd (replicate (Suc k) sep @ name) = replicate (Suc k) sep @ name"
      by (simp add: abs_input_def isabs_def startswith_sep_def)
    have a0: "abs_input cwd (replicate (Suc k) sep) = replicate (Suc k) sep"
      by (simp add: abs_input_def isabs_def startswith_sep_def)
    have lhs: "comps (abs_input cwd (d @ sep # name)) = [name]"
      by (simp only: p a1 comps_root_child[OF assms(2-5)])
    have rhs: "comps (abs_input cwd (dirname (d @ sep # name))) = []"
      by (simp only: dn a0 comps_only_seps)
    show ?thesis by (simp only: lhs rhs append_Nil)
  next
    case False
    then have dn: "dirname (d @ sep # name) = rstrip_sep d"
      using dirname_child[OF assms(2), of d] by simp
    from False have ne: "rstrip_sep d \<noteq> []"
      using rstrip_sep_Nil[of d] by blast
    obtain m where m: "d = rstrip_sep d @ replicate m sep"
      using rstrip_sep_decomp[of d] by (rule exE)
    have "d @ sep # name = (rstrip_sep d @ replicate m sep) @ sep # name"
      by (subst m) (rule refl)
    then have p: "d @ sep # name = rstrip_sep d @ (replicate (Suc m) sep @ name)"
      by (simp add: replicate_app_Cons_same)
    have ab: "abs_input cwd (rstrip_sep d @ (replicate (Suc m) sep @ name))
        = abs_input cwd (rstrip_sep d) @ replicate (Suc m) sep @ name"
      by (rule abs_input_append[OF assms(1) ne])
    have "comps (abs_input cwd (rstrip_sep d) @ replicate (Suc m) sep @ name)
        = comps (abs_input cwd (rstrip_sep d)) @ [name]"
      by (rule comps_child[OF abs_input_abs[OF assms(1)] assms(2-5)])
    then have "comps (abs_input cwd (rstrip_sep d @ (replicate (Suc m) sep @ name)))
        = comps (abs_input cwd (rstrip_sep d)) @ [name]"
      by (simp only: ab)
    then have "comps (abs_input cwd (d @ sep # name))
        = comps (abs_input cwd (rstrip_sep d)) @ [name]"
      by (simp only: p[symmetric])
    then show ?thesis by (simp only: dn)
  qed
  then show ?thesis by (rule relpath_child[OF assms(1) pne])
qed

subsection \<open>Self-anchors\<close>

text \<open>
  C5, amended. For an occurrence with an empty target and a non-empty anchor, the target
  of the rewritten link is the percent-encoded file name of the current document (the
  last component of the root joined with the document's path), followed by
  \<^verbatim>\<open>#\<close> and the anchor: for \<^verbatim>\<open>a/b.md\<close> it is \<^verbatim>\<open>b.md#anchor\<close>, not an empty
  path. The working directory is absolute, as \<^verbatim>\<open>os.getcwd()\<close> is, and the file name
  is neither \<^verbatim>\<open>.\<close> nor \<^verbatim>\<open>..\<close>.
\<close>

theorem self_anchor_target:
  assumes "find (\<lambda>sc. sc_match sc m) (scanners self) = Some sc"
      and "sc_extract sc m = Some link"
      and "link_target link = []"
      and "link_anchor link \<noteq> []"
      and "isabs (getcwd self)"
      and "join (root self) path = d @ sep # name"
      and "sep \<notin> set name"
      and "name \<noteq> []" and "name \<noteq> ''.''" and "name \<noteq> ''..''"
  shows "do_replace self path tm m =
           ([], Inr ((if link_image link then ''!'' else []) @ ''['' @ link_text link @ '']('' @
              quote name @ CHR ''#'' # link_anchor link @
              (if link_title link \<noteq> []
               then CHR '' '' # CHR 0x22 # link_title link @ [CHR 0x22] else []) @ '')''))"
proof -
  have rel: "relpath (getcwd self) (join (root self) path) (abs_from self path) = Inr name"
    unfolding abs_from_def assms(6) by (rule relpath_own_directory[OF assms(5,7-10)])
  have "do_replace self path tm m = ([], Inr (render (link\<lparr>link_target := quote name\<rparr>) False))"
    by (rule do_replace_quoted[where t="join (root self) path", OF assms(1,2) _ rel])
      (use assms(3,4) in simp)
  with assms(4) show ?thesis by (simp add: render_plain)
qed

theorem self_anchor_target_witness:
  "do_replace (site True None) ''a/b.md'' Map.empty
     \<lparr>group0 = ''[[#top|Top]]'', groupdict = [''wiki_link'' \<mapsto> ''#top|Top'']\<rparr>
   = ([], Inr ''[Top](b.md#top)'')"
proof -
  have h1: "find (\<lambda>sc. sc_match sc \<lparr>group0 = ''[[#top|Top]]'',
                groupdict = [''wiki_link'' \<mapsto> ''#top|Top'']\<rparr>)
              (scanners (site True None)) = Some wiki_scanner"
    by (simp add: site_def wiki_scanner_def)
  have h2: "sc_extract wiki_scanner \<lparr>group0 = ''[[#top|Top]]'',
                groupdict = [''wiki_link'' \<mapsto> ''#top|Top'']\<rparr>
      = Some \<lparr>link_image = False, link_text = ''Top'', link_target = [],
               link_anchor = ''top'', link_title = []\<rparr>"
    by (simp add: wiki_scanner_def wiki_extract_def split_at_def)
  have h3: "isabs (getcwd (site True None))"
    by code_simp
  have h4: "join (root (site True None)) ''a/b.md'' = ''/srv/docs/a'' @ sep # ''b.md''"
    by code_simp
  have h5: "quote ''b.md'' = ''b.md''"
    by code_simp
  show ?thesis
    using self_anchor_target[where tm=Map.empty and name="''b.md''", OF h1 h2 _ _ h3 h4] h5
    by simp
qed

text \<open>The claim as first stated fails: the target is the file name of the document.\<close>

theorem self_anchor_is_file_name:
  "replace (site True None) ''a/b.md'' ''see [[#top|Top]]'' = ([], Inr ''see [Top](b.md#top)'')
   \<and> replace (site True None) ''a/b.md'' ''see [[#top|Top]]'' \<noteq> ([], Inr ''see [Top](#top)'')
   \<and> replace (site True None) ''a/b.md'' ''see [[#top|Top]]'' \<noteq> ([], Inr ''see [Top](.#top)'')"
  by code_simp

subsection \<open>Where the code departs from the specification\<close>

text \<open>
  C2. With directory URLs on, a search that fails leaves the occurrence as it stands.
  With directory URLs off, \<^verbatim>\<open>.md\<close> is appended before the result is tested: an
  empty result becomes \<^verbatim>\<open>.md\<close> and the link is rewritten to it, a definition with
  such a target enters the target map, and the result \<^verbatim>\<open>None\<close> raises TypeError
  out of \<open>replace\<close>.
\<close>

theorem failed_search_without_directory_urls:
  "replace (site True (Some [])) ''a/b.md'' ''see [[Nope]]''
     = ([''[EzLinks] '' @ apostrophe # ''Nope'' @ apostrophe # '' not found.''],
        Inr ''see [[Nope]]'')
   \<and> search_target (site False (Some [])) ''a/b.md'' ''Nope'' = Inr ''.md''
   \<and> replace (site False (Some [])) ''a/b.md'' ''see [[Nope]]''
     = ([], Inr ''see [Nope](../../.md)'')
   \<and> search_target (site False None) ''a/b.md'' ''Nope'' = Inl TypeError
   \<and> replace (site False None) ''a/b.md'' ''see [[Nope]]'' = ([], Inl TypeError)
   \<and> (case snd (build_target_map (site False (Some [])) ''a/b.md'' ''[r1]: Nope'') of
         Inl e \<Rightarrow> False
       | Inr tm \<Rightarrow> tm ''r1'' = Some \<lparr>link_image = False, link_text = ''r1'',
            link_target = ''../../.md'', link_anchor = [], link_title = []\<rparr>)"
  by code_simp

text \<open>
  C6. With directory URLs off, a resolved path without a file extension whose directory
  has a dot in its name gets no \<^verbatim>\<open>.md\<close>: the code tests for a dot anywhere in the
  path. The same kind of page in a directory without a dot gets the suffix.
\<close>

theorem dotted_directory_gets_no_suffix:
  "search_target (site False None) ''a/b.md'' ''Intro'' = Inr ''/srv/docs/v1.2/intro''
   \<and> splitext_ext ''/srv/docs/v1.2/intro'' = []
   \<and> search_target (site False None) ''a/b.md'' ''Plain'' = Inr ''/srv/docs/c/plain.md''
   \<and> replace (site False None) ''a/b.md'' ''[[Intro]] [[Plain]]''
     = ([], Inr ''[Intro](../v1.2/intro) [Plain](../c/plain.md)'')"
  by code_simp

text \<open>
  C8. In the pre-pass the loop over the definition recognizers does not stop at the first
  that claims the match: with two recognizers that both claim a definition, the link of
  the second replaces the link of the first in the target map.
\<close>

theorem later_recognizer_is_used:
  "sc_match (def_scanner ''First'')
     \<lparr>group0 = ''[r1]: My Page'', groupdict = [''ref_text'' \<mapsto> ''r1'', ''ref_target'' \<mapsto> ''My Page'']\<rparr>
   \<and> sc_match (def_scanner ''Second'')
     \<lparr>group0 = ''[r1]: My Page'', groupdict = [''ref_text'' \<mapsto> ''r1'', ''ref_target'' \<mapsto> ''My Page'']\<rparr>
   \<and> (case snd (build_target_map
                  ((site True None)\<lparr>target_scanners := [def_scanner ''First'', def_scanner ''Second'']\<rparr>)
                  ''a/b.md'' ''[r1]: My Page'') of
         Inl e \<Rightarrow> False
       | Inr tm \<Rightarrow> tm ''r1'' = Some \<lparr>link_image = False, link_text = ''r1'',
            link_target = ''../c/my page.md'', link_anchor = [], link_title = ''Second''\<rparr>)
   \<and> snd (replace ((site True None)\<lparr>target_scanners := [def_scanner ''First'', def_scanner ''Second'']\<rparr>)
            ''a/b.md'' (''[r1]: My Page'' @ CHR 0x0A # ''see [[r1]]''))
     = Inr (''[r1]: My Page'' @ CHR 0x0A # ''see [Second](../c/my page.md)'')"
  by code_simp

end
